theory Spec2Isabelle
  imports Complex_Main
begin

section \<open>Numbers of the page\<close>

text \<open>
  The page is one TypeScript module, \<^verbatim>\<open>src/app/page.tsx\<close>. Its numbers are
  JavaScript numbers, that is IEEE doubles. A finite double is a rational number;
  \<open>jsnum\<close> adds \<^verbatim>\<open>NaN\<close> and the infinities, which a division or a form field
  can give. The sign of zero is outside the model.

  Sums and comparisons of block minutes and clock readings, and the improvement
  percentage, which is a continuous value, are modelled on the exact rationals. Where the
  code rounds the result of a division to an integer (\<^verbatim>\<open>percent\<close>, the minutes of a
  session) the rounding of each double operation decides the integer near a tie; there
  the operations are the exact ones followed by \<open>to_double\<close>, the rounding to the
  nearest double.
\<close>

datatype jsnum = Fin rat | NaN | PosInf | NegInf

text \<open>
  A value as \<^verbatim>\<open>Number(value)\<close> can meet it in \<^verbatim>\<open>finish\<close>: the state is typed
  \<^verbatim>\<open>Record<string, number>\<close>, so strings do not occur; a missing value is
  \<^verbatim>\<open>undefined\<close>.
\<close>

datatype jsval = JNum jsnum | JUndefined | JNull

fun Number :: "jsval \<Rightarrow> jsnum" where
  "Number (JNum n) = n"
| "Number JUndefined = NaN"
| "Number JNull = Fin 0"

text \<open>\<^verbatim>\<open>x || y\<close> on numbers: \<^verbatim>\<open>0\<close> and \<^verbatim>\<open>NaN\<close> are the falsy ones.\<close>

fun truthy :: "jsnum \<Rightarrow> bool" where
  "truthy (Fin x) = (x \<noteq> 0)"
| "truthy NaN = False"
| "truthy PosInf = True"
| "truthy NegInf = True"

text \<open>\<^verbatim>\<open>!x\<close> on a number.\<close>

fun js_not :: "jsnum \<Rightarrow> bool" where
  "js_not (Fin x) = (x = 0)"
| "js_not NaN = True"
| "js_not PosInf = False"
| "js_not NegInf = False"

definition js_or :: "jsnum \<Rightarrow> jsnum \<Rightarrow> jsnum" where
  "js_or x y = (if truthy x then x else y)"

fun js_sub :: "jsnum \<Rightarrow> jsnum \<Rightarrow> jsnum" where
  "js_sub NaN y = NaN"
| "js_sub x NaN = NaN"
| "js_sub (Fin a) (Fin b) = Fin (a - b)"
| "js_sub (Fin a) PosInf = NegInf"
| "js_sub (Fin a) NegInf = PosInf"
| "js_sub PosInf PosInf = NaN"
| "js_sub PosInf y = PosInf"
| "js_sub NegInf NegInf = NaN"
| "js_sub NegInf y = NegInf"

fun js_mul :: "jsnum \<Rightarrow> jsnum \<Rightarrow> jsnum" where
  "js_mul NaN y = NaN"
| "js_mul x NaN = NaN"
| "js_mul (Fin a) (Fin b) = Fin (a * b)"
| "js_mul (Fin a) PosInf = (if a = 0 then NaN else if 0 < a then PosInf else NegInf)"
| "js_mul (Fin a) NegInf = (if a = 0 then NaN else if 0 < a then NegInf else PosInf)"
| "js_mul PosInf (Fin b) = (if b = 0 then NaN else if 0 < b then PosInf else NegInf)"
| "js_mul NegInf (Fin b) = (if b = 0 then NaN else if 0 < b then NegInf else PosInf)"
| "js_mul PosInf PosInf = PosInf"
| "js_mul PosInf NegInf = NegInf"
| "js_mul NegInf PosInf = NegInf"
| "js_mul NegInf NegInf = PosInf"

fun js_div :: "jsnum \<Rightarrow> jsnum \<Rightarrow> jsnum" where
  "js_div NaN y = NaN"
| "js_div x NaN = NaN"
| "js_div (Fin a) (Fin b) =
     (if b = 0 then (if a = 0 then NaN else if 0 < a then PosInf else NegInf)
      else Fin (a / b))"
| "js_div (Fin a) PosInf = Fin 0"
| "js_div (Fin a) NegInf = Fin 0"
| "js_div PosInf (Fin b) = (if 0 \<le> b then PosInf else NegInf)"
| "js_div NegInf (Fin b) = (if 0 \<le> b then NegInf else PosInf)"
| "js_div PosInf y = NaN"
| "js_div NegInf y = NaN"

text \<open>
  Rounding to the nearest double. \<open>ilog2 x\<close> is the exponent \<open>k\<close> with
  \<open>2 ^ k \<le> x < 2 ^ (k + 1)\<close>; a double has 53 significant bits and no exponent below
  -1074, a tie goes to the even significand, and a result of \<open>2 ^ 1024\<close> or more is an
  infinity.
\<close>

function ilog2 :: "rat \<Rightarrow> int" where
  "ilog2 x = (if x \<le> 0 then 0
              else if 2 \<le> x then ilog2 (x / 2) + 1
              else if x < 1 then ilog2 (x * 2) - 1
              else 0)"
  by pat_completeness auto
termination
proof (relation "measure (\<lambda>x. 2 * nat \<lceil>1 / x\<rceil> + nat \<lceil>x\<rceil>)")
  show "wf (measure (\<lambda>x::rat. 2 * nat \<lceil>1 / x\<rceil> + nat \<lceil>x\<rceil>))" by simp
next
  fix x :: rat
  assume "\<not> x \<le> 0" "2 \<le> x"
  then have x: "2 \<le> x" by simp
  have a: "\<lceil>x / 2\<rceil> < \<lceil>x\<rceil>"
  proof -
    have "x / 2 \<le> x - 1" using x by simp
    then have "\<lceil>x / 2\<rceil> \<le> \<lceil>x - 1\<rceil>" by (rule ceiling_mono)
    then show ?thesis by simp
  qed
  have b: "\<lceil>1 / (x / 2)\<rceil> = 1" "\<lceil>1 / x\<rceil> = 1"
    using x by (simp_all add: ceiling_eq_iff)
  have "0 < \<lceil>x\<rceil>" using x by (simp add: less_ceiling_iff)
  with a have "nat \<lceil>x / 2\<rceil> < nat \<lceil>x\<rceil>" by linarith
  then have "2 * nat \<lceil>1 / (x / 2)\<rceil> + nat \<lceil>x / 2\<rceil> < 2 * nat \<lceil>1 / x\<rceil> + nat \<lceil>x\<rceil>"
    by (simp only: b)
  then show "(x / 2, x) \<in> measure (\<lambda>x. 2 * nat \<lceil>1 / x\<rceil> + nat \<lceil>x\<rceil>)"
    by (simp only: in_measure)
next
  fix x :: rat
  assume "\<not> x \<le> 0" "\<not> 2 \<le> x" "x < 1"
  then have x: "0 < x" "x < 1" by simp_all
  have c1: "\<lceil>x\<rceil> = 1" using x by (simp add: ceiling_eq_iff)
  have c2: "\<lceil>x * 2\<rceil> \<le> 2" using x by (simp add: ceiling_le_iff)
  have c2': "0 < \<lceil>x * 2\<rceil>" using x by (simp add: less_ceiling_iff)
  have d: "\<lceil>1 / (x * 2)\<rceil> < \<lceil>1 / x\<rceil>"
  proof (cases "1 / x \<le> 2")
    case True
    then have "\<lceil>1 / (x * 2)\<rceil> = 1" using x by (simp add: ceiling_eq_iff field_simps)
    moreover have "1 < \<lceil>1 / x\<rceil>" using x by (simp add: less_ceiling_iff)
    ultimately show ?thesis by simp
  next
    case False
    then have "1 / (x * 2) \<le> 1 / x - 1" using x by (simp add: field_simps)
    then have "\<lceil>1 / (x * 2)\<rceil> \<le> \<lceil>1 / x - 1\<rceil>" by (rule ceiling_mono)
    then show ?thesis by simp
  qed
  have e: "0 < \<lceil>1 / (x * 2)\<rceil>" using x by (simp add: less_ceiling_iff)
  have "nat \<lceil>x * 2\<rceil> \<le> 2" "nat \<lceil>x\<rceil> = 1" using c1 c2 by linarith+
  moreover have "nat \<lceil>1 / (x * 2)\<rceil> < nat \<lceil>1 / x\<rceil>" using d e by linarith
  ultimately have "2 * nat \<lceil>1 / (x * 2)\<rceil> + nat \<lceil>x * 2\<rceil> < 2 * nat \<lceil>1 / x\<rceil> + nat \<lceil>x\<rceil>"
    by linarith
  then show "(x * 2, x) \<in> measure (\<lambda>x. 2 * nat \<lceil>1 / x\<rceil> + nat \<lceil>x\<rceil>)"
    by (simp only: in_measure)
qed

declare ilog2.simps [simp del]

definition round_even :: "rat \<Rightarrow> int" where
  "round_even y =
     (let f = \<lfloor>y\<rfloor>; d = y - of_int f
      in if d < 1 / 2 then f else if 1 / 2 < d then f + 1 else if even f then f else f + 1)"

definition to_double :: "rat \<Rightarrow> jsnum" where
  "to_double x =
     (if x = 0 then Fin 0
      else
        let ex = max (ilog2 \<bar>x\<bar> - 52) (- 1074);
            m = round_even (\<bar>x\<bar> / 2 powi ex);
            r = of_int m * 2 powi ex
        in if 2 powi 1024 \<le> r then (if 0 < x then PosInf else NegInf)
           else Fin (sgn x * r))"

text \<open>Division and multiplication as the doubles perform them.\<close>

definition double_div :: "jsnum \<Rightarrow> jsnum \<Rightarrow> jsnum" where
  "double_div a b = (case js_div a b of Fin x \<Rightarrow> to_double x | v \<Rightarrow> v)"

definition double_mul :: "jsnum \<Rightarrow> jsnum \<Rightarrow> jsnum" where
  "double_mul a b = (case js_mul a b of Fin x \<Rightarrow> to_double x | v \<Rightarrow> v)"

text \<open>\<^verbatim>\<open>Math.round\<close>: the nearest integer, a tie going up.\<close>

fun Math_round :: "jsnum \<Rightarrow> jsnum" where
  "Math_round (Fin x) = Fin (of_int \<lfloor>x + 1 / 2\<rfloor>)"
| "Math_round NaN = NaN"
| "Math_round PosInf = PosInf"
| "Math_round NegInf = NegInf"

text \<open>\<^verbatim>\<open>xs[i]\<close>: \<^verbatim>\<open>undefined\<close> outside the array.\<close>

definition js_index :: "'a list \<Rightarrow> int \<Rightarrow> 'a option" where
  "js_index xs i = (if 0 \<le> i \<and> i < int (length xs) then Some (xs ! nat i) else None)"

section \<open>Types\<close>

datatype Intensity = low | moderate | high

datatype MetricKind = reps | time_s | distance_m | custom

record Metric =
  kind :: MetricKind
  label :: "string option"
  higherIsBetter :: "bool option"

record Block =
  b_id :: string
  b_name :: string
  b_minutes :: rat
  b_intensity :: Intensity
  b_metric :: "Metric option"
  b_target :: "rat option"
  b_notes :: "string option"

record WorkoutPlan =
  p_id :: string
  p_title :: string
  p_tags :: "string list"
  p_blocks :: "Block list"
  p_author :: string

record MetricEntry =
  m_blockId :: string
  m_value :: jsnum

record SessionLog =
  l_id :: string
  l_userId :: "string option"
  l_planId :: string
  l_date :: string
  l_duration :: jsnum
  l_rpe :: jsnum
  l_notes :: "string option"
  l_metrics :: "MetricEntry list"

section \<open>Timer hook\<close>

text \<open>
  \<^verbatim>\<open>useIntervalTimer(blocks)\<close>. The state of the hook is \<^verbatim>\<open>isRunning\<close>,
  \<^verbatim>\<open>elapsedSec\<close> and the reference \<^verbatim>\<open>lastTick\<close> (\<open>None\<close> is \<^verbatim>\<open>null\<close>).
\<close>

record Timer =
  isRunning :: bool
  elapsedSec :: rat
  lastTick :: "rat option"

text \<open>\<^verbatim>\<open>b.minutes || 0\<close> on a finite number.\<close>

definition or0 :: "rat \<Rightarrow> rat" where
  "or0 x = (if x \<noteq> 0 then x else 0)"

definition totalMinutes :: "Block list \<Rightarrow> rat" where
  "totalMinutes blocks = foldl (\<lambda>a b. a + or0 (b_minutes b)) 0 blocks"

definition totalSec :: "Block list \<Rightarrow> rat" where
  "totalSec blocks = totalMinutes blocks * 60"

definition start :: "Timer \<Rightarrow> Timer" where
  "start st = (if \<not> isRunning st then st\<lparr>isRunning := True\<rparr> else st)"

text \<open>
  When \<^verbatim>\<open>isRunning\<close> is false the effect of the hook cancels the frame and clears
  \<^verbatim>\<open>lastTick\<close>.
\<close>

definition pause :: "Timer \<Rightarrow> Timer" where
  "pause st = st\<lparr>isRunning := False, lastTick := None\<rparr>"

definition reset :: "Timer \<Rightarrow> Timer" where
  "reset st = st\<lparr>isRunning := False, elapsedSec := 0, lastTick := None\<rparr>"

text \<open>The updater \<^verbatim>\<open>(s) => Math.min(s + dt, totalSec)\<close> given to \<^verbatim>\<open>setElapsedSec\<close>.\<close>

definition tick :: "rat \<Rightarrow> rat \<Rightarrow> rat \<Rightarrow> rat" where
  "tick tot dt s = min (s + dt) tot"

text \<open>One animation frame at time stamp \<open>t\<close> (milliseconds).\<close>

definition loop :: "rat \<Rightarrow> rat \<Rightarrow> Timer \<Rightarrow> Timer" where
  "loop tot t st =
     (let last0 = (case lastTick st of None \<Rightarrow> t | Some l \<Rightarrow> l);
          dt = (t - last0) / 1000
      in st\<lparr>lastTick := Some t, elapsedSec := tick tot dt (elapsedSec st)\<rparr>)"

record Cumulative =
  c_id :: string
  c_start :: rat
  c_end :: rat
  c_name :: string
  c_intensity :: Intensity

text \<open>
  The body of \<^verbatim>\<open>for (const b of blocks)\<close>: the state is the running sum
  \<^verbatim>\<open>acc\<close> and the array \<^verbatim>\<open>arr\<close>.
\<close>

definition cumulative_step :: "Block \<Rightarrow> rat \<times> Cumulative list \<Rightarrow> rat \<times> Cumulative list" where
  "cumulative_step b s =
     (case s of (acc, arr) \<Rightarrow>
        let start2 = acc * 60;
            acc2 = acc + b_minutes b;
            end2 = acc2 * 60
        in (acc2, arr @ [\<lparr>c_id = b_id b, c_start = start2, c_end = end2,
                          c_name = b_name b, c_intensity = b_intensity b\<rparr>]))"

definition cumulative :: "Block list \<Rightarrow> Cumulative list" where
  "cumulative blocks = snd (fold cumulative_step blocks (0, []))"

definition current :: "Block list \<Rightarrow> rat \<Rightarrow> Cumulative option" where
  "current blocks elapsed =
     (case find (\<lambda>c. elapsed \<ge> c_start c \<and> elapsed < c_end c) (cumulative blocks) of
        Some c \<Rightarrow> Some c
      | None \<Rightarrow> js_index (cumulative blocks) (int (length (cumulative blocks)) - 1))"

definition percent :: "rat \<Rightarrow> rat \<Rightarrow> jsnum" where
  "percent elapsed tot =
     Math_round (double_mul (double_div (Fin elapsed) (Fin tot)) (Fin 100))"

text \<open>
  The layout the specification describes: segment \<open>i\<close> starts where the segments before
  it end, in seconds.
\<close>

definition seg_start :: "Block list \<Rightarrow> nat \<Rightarrow> rat" where
  "seg_start blocks i = 60 * sum_list (map b_minutes (take i blocks))"

definition seg_end :: "Block list \<Rightarrow> nat \<Rightarrow> rat" where
  "seg_end blocks i = seg_start blocks i + 60 * b_minutes (blocks ! i)"

definition seg_entry :: "Block list \<Rightarrow> nat \<Rightarrow> Cumulative" where
  "seg_entry blocks i =
     \<lparr>c_id = b_id (blocks ! i), c_start = seg_start blocks i, c_end = seg_end blocks i,
      c_name = b_name (blocks ! i), c_intensity = b_intensity (blocks ! i)\<rparr>"

text \<open>The three default blocks; their ids are random in the source.\<close>

definition DEFAULT_BLOCKS :: "string \<Rightarrow> string \<Rightarrow> string \<Rightarrow> Block list" where
  "DEFAULT_BLOCKS i1 i2 i3 =
     [\<lparr>b_id = i1, b_name = ''Warmup'', b_minutes = 10, b_intensity = low,
       b_metric = Some \<lparr>kind = time_s, label = Some ''Mobility'', higherIsBetter = Some True\<rparr>,
       b_target = None, b_notes = Some ''Mobility + breath''\<rparr>,
      \<lparr>b_id = i2, b_name = ''Main Set'', b_minutes = 30, b_intensity = moderate,
       b_metric = Some \<lparr>kind = reps, label = Some ''Total Reps'', higherIsBetter = Some True\<rparr>,
       b_target = Some 150, b_notes = Some ''Circuit training''\<rparr>,
      \<lparr>b_id = i3, b_name = ''Cooldown'', b_minutes = 5, b_intensity = low,
       b_metric = Some \<lparr>kind = time_s, label = Some ''Stretch'', higherIsBetter = Some True\<rparr>,
       b_target = None, b_notes = Some ''Stretch + reflect''\<rparr>]"

section \<open>Student dashboard\<close>

text \<open>
  The state of \<^verbatim>\<open>StudentDashboard\<close>. The plan list is a property of the
  component; \<^verbatim>\<open>selected\<close> is computed from it at every render.
\<close>

record Student =
  selectedId :: string
  timer :: Timer
  studentName :: string
  rpe :: jsnum
  notesText :: string
  metricInputs :: "(string \<times> jsval) list"

text \<open>\<^verbatim>\<open>plans.find((p) => p.id === selectedId) || plans[0]\<close>; \<open>None\<close> is \<^verbatim>\<open>undefined\<close>.\<close>

definition selected :: "WorkoutPlan list \<Rightarrow> string \<Rightarrow> WorkoutPlan option" where
  "selected plans sid =
     (case find (\<lambda>p. p_id p = sid) plans of
        Some p \<Rightarrow> Some p
      | None \<Rightarrow> js_index plans 0)"

text \<open>\<^verbatim>\<open>addLog\<close> of the root page: the new log goes to the front.\<close>

definition addLog :: "SessionLog list \<Rightarrow> SessionLog \<Rightarrow> SessionLog list" where
  "addLog logs l = take 500 (l # logs)"

datatype error = TypeError

text \<open>
  \<^verbatim>\<open>finish\<close>. The fresh id and the date come from the environment. The object
  literal reads \<^verbatim>\<open>selected.id\<close> with no guard, which throws when no plan is
  selected; this happens before \<^verbatim>\<open>addLog\<close> and \<^verbatim>\<open>reset\<close> are called.
  \<^verbatim>\<open>Object.entries\<close> gives the inputs as a list of pairs.
\<close>

definition finish ::
  "string \<Rightarrow> string \<Rightarrow> WorkoutPlan list \<Rightarrow> SessionLog list \<Rightarrow> Student
     \<Rightarrow> error + (SessionLog list \<times> Student)" where
  "finish newId now plans logs st =
     (let minutesDone = Math_round (double_div (Fin (elapsedSec (timer st))) (Fin 60));
          metrics = map (\<lambda>(blockId, v).
                      \<lparr>m_blockId = blockId, m_value = js_or (Number v) (Fin 0)\<rparr>)
                    (metricInputs st)
      in case selected plans (selectedId st) of
           None \<Rightarrow> Inl TypeError
         | Some p \<Rightarrow>
             Inr (addLog logs
                    \<lparr>l_id = newId,
                     l_userId = (if studentName st \<noteq> [] then Some (studentName st) else None),
                     l_planId = p_id p,
                     l_date = now,
                     l_duration = minutesDone,
                     l_rpe = rpe st,
                     l_notes = Some (notesText st),
                     l_metrics = metrics\<rparr>,
                  st\<lparr>timer := reset (timer st)\<rparr>))"

text \<open>\<^verbatim>\<open>logs.filter((l) => l.planId === selected?.id)\<close>.\<close>

definition myLogs :: "SessionLog list \<Rightarrow> WorkoutPlan option \<Rightarrow> SessionLog list" where
  "myLogs logs sel = filter (\<lambda>l. Some (l_planId l) = map_option p_id sel) logs"

record Improvement =
  i_baseline :: "jsnum option"
  i_latest :: "jsnum option"
  i_percent :: "jsnum option"

text \<open>
  The \<^verbatim>\<open>series\<close> of \<^verbatim>\<open>computeImprovement\<close>: the value of the block in every log
  that has one, in the order of the log array.
\<close>

definition series :: "SessionLog list \<Rightarrow> WorkoutPlan option \<Rightarrow> string \<Rightarrow> jsnum list" where
  "series logs sel blockId =
     List.map_filter
       (\<lambda>l. map_option m_value (find (\<lambda>m. m_blockId m = blockId) (l_metrics l)))
       (myLogs logs sel)"

definition computeImprovement ::
  "SessionLog list \<Rightarrow> WorkoutPlan option \<Rightarrow> string \<Rightarrow> Improvement" where
  "computeImprovement logs sel blockId =
     (let ser = series logs sel blockId
      in if length ser < 2
         then \<lparr>i_baseline = None, i_latest = None, i_percent = None\<rparr>
         else
           let baseline = ser ! 0;
               latest = ser ! (length ser - 1)
           in if js_not baseline \<or> baseline = Fin 0
              then \<lparr>i_baseline = Some baseline, i_latest = Some latest, i_percent = None\<rparr>
              else
                let perc = js_mul (js_div (js_sub latest baseline) baseline) (Fin 100)
                in \<lparr>i_baseline = Some baseline, i_latest = Some latest,
                    i_percent = Some perc\<rparr>)"

text \<open>
  The dashboard calls \<^verbatim>\<open>computeImprovement(b.id)\<close> for every block of the selected
  plan.
\<close>

definition improvements :: "SessionLog list \<Rightarrow> WorkoutPlan option \<Rightarrow> Improvement list" where
  "improvements logs sel =
     (case sel of
        None \<Rightarrow> []
      | Some p \<Rightarrow> map (\<lambda>b. computeImprovement logs sel (b_id b)) (p_blocks p))"

text \<open>
  Two plans that differ at most in \<^verbatim>\<open>higherIsBetter\<close> flags are equal once the
  flags are erased.
\<close>

definition eraseFlag :: "Block \<Rightarrow> Block" where
  "eraseFlag b = b\<lparr>b_metric := map_option (\<lambda>m. m\<lparr>higherIsBetter := None\<rparr>) (b_metric b)\<rparr>"

definition eraseFlags :: "WorkoutPlan \<Rightarrow> WorkoutPlan" where
  "eraseFlags p = p\<lparr>p_blocks := map eraseFlag (p_blocks p)\<rparr>"

section \<open>Instructor dashboard\<close>

text \<open>\<^verbatim>\<open>alert(`Plan must total 45 minutes. Currently ${sum}.`)\<close>, with its sum.\<close>

datatype alert = MustTotal45 rat

record Instructor =
  editing :: "WorkoutPlan option"
  alerts :: "alert list"

text \<open>
  \<^verbatim>\<open>savePlan\<close>. The plan list and its setter are properties of the component: the
  function returns the list as \<^verbatim>\<open>setPlans\<close> leaves it.
\<close>

definition savePlan :: "WorkoutPlan list \<Rightarrow> Instructor \<Rightarrow> WorkoutPlan list \<times> Instructor" where
  "savePlan plans st =
     (case editing st of
        None \<Rightarrow> (plans, st)
      | Some e \<Rightarrow>
          let sum2 = foldl (\<lambda>a b. a + b_minutes b) 0 (p_blocks e)
          in if sum2 \<noteq> 45
             then (plans, st\<lparr>alerts := alerts st @ [MustTotal45 sum2]\<rparr>)
             else
               let exists = list_ex (\<lambda>p. p_id p = p_id e) plans;
                   next2 = (if exists
                           then map (\<lambda>p. if p_id p = p_id e then e else p) plans
                           else e # plans)
               in (next2, st\<lparr>editing := None\<rparr>))"

definition removePlan :: "WorkoutPlan list \<Rightarrow> string \<Rightarrow> WorkoutPlan list" where
  "removePlan plans i = filter (\<lambda>p. p_id p \<noteq> i) plans"

section \<open>Example data\<close>

text \<open>
  The first default plan, a session log with one metric entry, and a dashboard state
  whose form holds one metric value for the block \<open>''m''\<close>.
\<close>

definition examplePlan :: WorkoutPlan where
  "examplePlan =
     \<lparr>p_id = ''p'', p_title = ''Baseline 45'', p_tags = [''general'', ''intro''],
      p_blocks = DEFAULT_BLOCKS ''w'' ''m'' ''c'', p_author = ''Instructor Team''\<rparr>"

definition exampleLog :: "string \<Rightarrow> string \<Rightarrow> rat \<Rightarrow> SessionLog" where
  "exampleLog i d v =
     \<lparr>l_id = i, l_userId = None, l_planId = ''p'', l_date = d, l_duration = Fin 45,
      l_rpe = Fin 5, l_notes = Some [],
      l_metrics = [\<lparr>m_blockId = ''m'', m_value = Fin v\<rparr>]\<rparr>"

definition exampleStudent :: "rat \<Rightarrow> Student" where
  "exampleStudent v =
     \<lparr>selectedId = ''p'',
      timer = \<lparr>isRunning = True, elapsedSec = 2700, lastTick = Some 0\<rparr>,
      studentName = [], rpe = Fin 5, notesText = [],
      metricInputs = [(''m'', JNum (Fin v))]\<rparr>"

text \<open>
  The same plan with every metric marked lower-is-better, a plan of 40 minutes, and a
  block list that ends in the zero-minute block the editor adds.
\<close>

definition lowerIsBetterPlan :: WorkoutPlan where
  "lowerIsBetterPlan =
     examplePlan\<lparr>p_blocks :=
       map (\<lambda>b. b\<lparr>b_metric := map_option (\<lambda>m. m\<lparr>higherIsBetter := Some False\<rparr>) (b_metric b)\<rparr>)
         (p_blocks examplePlan)\<rparr>"

definition shortPlan :: WorkoutPlan where
  "shortPlan = examplePlan\<lparr>p_blocks := take 2 (DEFAULT_BLOCKS ''w'' ''m'' ''c'')\<rparr>"

definition zeroLastBlocks :: "Block list" where
  "zeroLastBlocks =
     [\<lparr>b_id = ''w'', b_name = ''Warmup'', b_minutes = 10, b_intensity = low,
       b_metric = None, b_target = None, b_notes = None\<rparr>,
      \<lparr>b_id = ''n'', b_name = ''New Block'', b_minutes = 0, b_intensity = moderate,
       b_metric = None, b_target = None, b_notes = Some []\<rparr>]"

section \<open>Rounding to doubles\<close>

text \<open>
  \<open>ilog2\<close> finds the binary exponent, \<open>round_even\<close> is within one half of its
  argument, and so \<open>to_double\<close> is within half a unit in the last place; a value with
  a nearest significand is rounded to it.
\<close>

lemma two_powi_Suc: "(2::rat) powi (k + 1) = 2 * 2 powi k"
  by (simp add: power_int_add)

lemma two_powi_pred: "(2::rat) powi (k - 1) = 2 powi k / 2"
  by (simp add: power_int_diff)

lemma ilog2_bounds:
  "0 < x \<Longrightarrow> 2 powi ilog2 x \<le> x \<and> x < 2 powi (ilog2 x + 1)"
proof (induction x rule: ilog2.induct)
  case (1 x)
  show ?case
  proof (cases "2 \<le> x")
    case True
    then have eq: "ilog2 x = ilog2 (x / 2) + 1"
      using "1.prems" by (subst ilog2.simps) simp
    have "2 powi ilog2 (x / 2) \<le> x / 2 \<and> x / 2 < 2 powi (ilog2 (x / 2) + 1)"
      using "1.IH"(1) "1.prems" True by simp
    then show ?thesis
      unfolding eq two_powi_Suc by simp
  next
    case False
    show ?thesis
    proof (cases "x < 1")
      case True
      then have eq: "ilog2 x = ilog2 (x * 2) - 1"
        using "1.prems" False by (subst ilog2.simps) simp
      have "2 powi ilog2 (x * 2) \<le> x * 2 \<and> x * 2 < 2 powi (ilog2 (x * 2) + 1)"
        using "1.IH"(2) "1.prems" False True by simp
      then show ?thesis
        unfolding eq two_powi_pred by (simp add: two_powi_Suc)
    next
      case nlt: False
      then have "ilog2 x = 0"
        using "1.prems" False by (subst ilog2.simps) simp
      then show ?thesis using False nlt by simp
    qed
  qed
qed

lemma ilog2_unique:
  assumes "0 < x" "2 powi k \<le> x" "x < 2 powi (k + 1)"
  shows "ilog2 x = k"
proof (rule ccontr)
  assume ne: "ilog2 x \<noteq> k"
  note b = ilog2_bounds [OF assms(1)]
  show False
  proof (cases "ilog2 x < k")
    case True
    then have "(2::rat) powi (ilog2 x + 1) \<le> 2 powi k"
      by (intro power_int_increasing) simp_all
    with b assms(2) show False by linarith
  next
    case False
    with ne have "k + 1 \<le> ilog2 x" by simp
    then have "(2::rat) powi (k + 1) \<le> 2 powi ilog2 x"
      by (intro power_int_increasing) simp_all
    with b assms(3) show False by linarith
  qed
qed

lemma ilog2_less:
  assumes "0 < x" "x < 2 powi K"
  shows "ilog2 x < K"
proof (rule ccontr)
  assume "\<not> ilog2 x < K"
  then have "(2::rat) powi K \<le> 2 powi ilog2 x"
    by (intro power_int_increasing) simp_all
  with ilog2_bounds [OF assms(1)] assms(2) show False by linarith
qed

lemma round_even_near: "\<bar>of_int (round_even y) - y\<bar> \<le> 1 / 2"
proof -
  have "of_int \<lfloor>y\<rfloor> \<le> y" "y < of_int \<lfloor>y\<rfloor> + 1" by linarith+
  then show ?thesis
    by (auto simp: round_even_def Let_def)
qed

lemma round_even_nonneg: "0 \<le> y \<Longrightarrow> 0 \<le> round_even y"
  by (auto simp: round_even_def Let_def)

lemma round_even_unique:
  assumes "\<bar>of_int m - y\<bar> < 1 / 2"
  shows "round_even y = m"
proof -
  have "\<bar>of_int (round_even y) - (of_int m :: rat)\<bar> < 1"
    using round_even_near [of y] assms by linarith
  then have "\<bar>(of_int (round_even y - m) :: rat)\<bar> < 1" by simp
  then have "\<bar>round_even y - m\<bar> < 1"
    by (metis of_int_abs of_int_less_1_iff)
  then show ?thesis by simp
qed

lemma to_double_pos:
  assumes "0 < x" "x < 2 powi K" "- 1021 \<le> K" "K \<le> 1023"
  shows "\<exists>r. to_double x = Fin r \<and> 0 \<le> r \<and> \<bar>r - x\<bar> \<le> 2 powi (K - 54)"
proof -
  define ex where "ex = max (ilog2 x - 52) (- 1074)"
  define m where "m = round_even (x / 2 powi ex)"
  define r :: rat where "r = of_int m * 2 powi ex"
  have p: "(0::rat) < 2 powi ex" by simp
  have "ilog2 x < K" using assms(1,2) by (rule ilog2_less)
  then have exK: "ex \<le> K - 53" using assms(3) by (simp add: ex_def)
  then have pw: "(2::rat) powi ex \<le> 2 powi (K - 53)"
    by (intro power_int_increasing) simp_all
  have half: "(2::rat) powi (K - 53) / 2 = 2 powi (K - 54)"
    using two_powi_pred [of "K - 53"] by simp
  have "\<bar>of_int m - x / 2 powi ex\<bar> \<le> 1 / 2"
    unfolding m_def by (rule round_even_near)
  then have "\<bar>of_int m - x / 2 powi ex\<bar> * 2 powi ex \<le> 1 / 2 * 2 powi ex"
    using p by (intro mult_right_mono) simp_all
  then have "\<bar>(of_int m - x / 2 powi ex) * 2 powi ex\<bar> \<le> 2 powi ex / 2"
    using p by (simp add: abs_mult)
  then have err: "\<bar>r - x\<bar> \<le> 2 powi ex / 2"
    using p by (simp add: r_def algebra_simps)
  then have errK: "\<bar>r - x\<bar> \<le> 2 powi (K - 54)"
    using pw half by linarith
  have "0 \<le> m" unfolding m_def using assms(1) p by (intro round_even_nonneg) simp
  then have r0: "0 \<le> r" using p by (simp add: r_def)
  have "(2::rat) powi (K - 54) \<le> 2 powi K" "(2::rat) powi K \<le> 2 powi 1023"
    using assms(4) by (intro power_int_increasing; simp)+
  moreover have "(2::rat) powi 1024 = 2 * 2 powi 1023"
    using two_powi_Suc [of 1023] by simp
  ultimately have "r < 2 powi 1024"
    using errK assms(2) by linarith
  then have "to_double x = Fin r"
    using assms(1) by (simp add: to_double_def Let_def ex_def [symmetric] m_def [symmetric]
        r_def [symmetric])
  with r0 errK show ?thesis by blast
qed

lemma to_double_eqI:
  assumes "0 < x" "2 powi k \<le> x" "x < 2 powi (k + 1)" "- 1022 \<le> k" "k \<le> 1022"
    and "\<bar>of_int m - x / 2 powi (k - 52)\<bar> < 1 / 2"
  shows "to_double x = Fin (of_int m * 2 powi (k - 52))"
proof -
  have k: "ilog2 x = k" using assms(1-3) by (rule ilog2_unique)
  have ex: "max (k - 52) (- 1074) = k - 52" using assms(4) by simp
  have m: "round_even (x / 2 powi (k - 52)) = m" using assms(6) by (rule round_even_unique)
  obtain r where r: "to_double x = Fin r"
    using to_double_pos [of x "k + 1"] assms by auto
  have "\<not> 2 powi 1024 \<le> of_int m * (2::rat) powi (k - 52)"
    using r assms(1) by (auto simp: to_double_def Let_def k ex m split: if_splits)
  then show ?thesis
    using assms(1) by (simp add: to_double_def Let_def k ex m)
qed


lemma to_double_nonneg:
  assumes "0 \<le> x" "x < 2 powi K" "- 1021 \<le> K" "K \<le> 1023"
  shows "\<exists>r. to_double x = Fin r \<and> 0 \<le> r \<and> \<bar>r - x\<bar> \<le> 2 powi (K - 54)"
proof (cases "x = 0")
  case True
  then show ?thesis by (simp add: to_double_def)
next
  case False
  then have "0 < x" using assms(1) by simp
  then show ?thesis using assms(2-4) by (rule to_double_pos)
qed

text \<open>The double results of the quotients the examples need.\<close>

lemma percent_1500_2700: "percent 1500 2700 = Fin 56"
proof -
  have d: "to_double (1500 / 2700) = Fin (2501999792983609 / 4503599627370496)"
    using to_double_eqI [of "1500 / 2700" "- 1" 5003999585967218] by simp
  have m: "to_double (2501999792983609 / 4503599627370496 * 100)
             = Fin (3909374676536889 / 70368744177664)"
    using to_double_eqI [of "2501999792983609 / 4503599627370496 * 100" 5 7818749353073778]
    by simp
  have f: "\<lfloor>3909374676536889 / 70368744177664 + 1 / 2 :: rat\<rfloor> = 56"
    by (simp add: floor_eq_iff)
  show ?thesis
    using d m f by (simp add: percent_def double_div_def double_mul_def)
qed

lemma percent_tie: "percent (783 / 2) 2700 = Fin 14"
proof -
  have d: "to_double (783 / 2 / 2700) = Fin (5224175567749775 / 36028797018963968)"
    using to_double_eqI [of "783 / 2 / 2700" "- 3" 5224175567749775] by simp
  have m: "to_double (5224175567749775 / 36028797018963968 * 100)
             = Fin (8162774324609023 / 562949953421312)"
    using to_double_eqI [of "5224175567749775 / 36028797018963968 * 100" 3 8162774324609023]
    by simp
  have f: "\<lfloor>8162774324609023 / 562949953421312 + 1 / 2 :: rat\<rfloor> = 14"
    by (simp add: floor_eq_iff)
  show ?thesis
    using d m f by (simp add: percent_def double_div_def double_mul_def)
qed

lemma to_double_45: "to_double 45 = Fin 45"
  using to_double_eqI [of 45 5 6333186975989760] by simp

lemma to_double_20: "to_double 20 = Fin 20"
  using to_double_eqI [of 20 4 5629499534213120] by simp

section \<open>Layout of the segments\<close>

text \<open>
  The loop of \<^verbatim>\<open>cumulative\<close> builds exactly the layout of consecutive intervals.
\<close>

lemma seg_entry_append:
  "i < length bs \<Longrightarrow> seg_entry (bs @ [b]) i = seg_entry bs i"
  by (simp add: seg_entry_def seg_start_def seg_end_def nth_append)

lemma seg_entry_last:
  "seg_entry (bs @ [b]) (length bs) =
     \<lparr>c_id = b_id b, c_start = sum_list (map b_minutes bs) * 60,
      c_end = (sum_list (map b_minutes bs) + b_minutes b) * 60,
      c_name = b_name b, c_intensity = b_intensity b\<rparr>"
  by (simp add: seg_entry_def seg_start_def seg_end_def algebra_simps)

lemma fold_cumulative_step:
  "fold cumulative_step bs (0, []) =
     (sum_list (map b_minutes bs), map (seg_entry bs) [0..<length bs])"
proof (induction bs rule: rev_induct)
  case Nil
  show ?case by simp
next
  case (snoc b bs)
  have old: "map (seg_entry (bs @ [b])) [0..<length bs] = map (seg_entry bs) [0..<length bs]"
    by (simp add: seg_entry_append)
  have "fold cumulative_step (bs @ [b]) (0, []) =
          cumulative_step b (fold cumulative_step bs (0, []))"
    by simp
  also have "\<dots> = cumulative_step b
          (sum_list (map b_minutes bs), map (seg_entry bs) [0..<length bs])"
    by (simp only: snoc.IH)
  also have "\<dots> = (sum_list (map b_minutes (bs @ [b])),
          map (seg_entry (bs @ [b])) [0..<length (bs @ [b])])"
    by (simp add: cumulative_step_def seg_entry_last old)
  finally show ?case .
qed

lemma cumulative_layout: "cumulative bs = map (seg_entry bs) [0..<length bs]"
  by (simp add: cumulative_def fold_cumulative_step)

lemma length_cumulative: "length (cumulative bs) = length bs"
  by (simp add: cumulative_layout)

lemma cumulative_nth: "i < length bs \<Longrightarrow> cumulative bs ! i = seg_entry bs i"
  by (simp add: cumulative_layout)

lemma totalMinutes_sum: "totalMinutes bs = sum_list (map b_minutes bs)"
proof -
  have "foldl (\<lambda>a b. a + or0 (b_minutes b)) a bs = a + sum_list (map b_minutes bs)" for a
    by (induction bs arbitrary: a) (simp_all add: or0_def)
  then show ?thesis by (simp add: totalMinutes_def)
qed

lemma totalSec_sum: "totalSec bs = 60 * sum_list (map b_minutes bs)"
  by (simp add: totalSec_def totalMinutes_sum)

lemma seg_end_Suc: "i < length bs \<Longrightarrow> seg_end bs i = seg_start bs (Suc i)"
  by (simp add: seg_end_def seg_start_def take_Suc_conv_app_nth algebra_simps)

lemma seg_start_mono:
  assumes "\<forall>b\<in>set bs. 0 \<le> b_minutes b" "i \<le> j"
  shows "seg_start bs i \<le> seg_start bs j"
proof -
  have "take j bs = take i bs @ take (j - i) (drop i bs)"
    using assms(2) by (metis le_add_diff_inverse take_add)
  moreover have "0 \<le> sum_list (map b_minutes (take (j - i) (drop i bs)))"
    using assms(1) by (intro sum_list_nonneg) (auto dest!: in_set_takeD in_set_dropD)
  ultimately show ?thesis by (simp add: seg_start_def)
qed

lemma seg_start_length: "seg_start bs (length bs) = totalSec bs"
  by (simp add: seg_start_def totalSec_sum)

lemma seg_end_le_last:
  assumes "\<forall>b\<in>set bs. 0 \<le> b_minutes b" "i < length bs"
  shows "seg_end bs i \<le> seg_end bs (length bs - 1)"
proof -
  have n: "Suc (length bs - 1) = length bs" "length bs - 1 < length bs"
    using assms(2) by arith+
  have "seg_end bs i = seg_start bs (Suc i)" using assms(2) by (simp add: seg_end_Suc)
  also have "\<dots> \<le> seg_start bs (length bs)" using assms by (intro seg_start_mono) auto
  also have "\<dots> = seg_end bs (length bs - 1)"
    using seg_end_Suc [OF n(2)] by (simp only: n(1))
  finally show ?thesis .
qed

lemma find_first:
  assumes "i < length xs" "P (xs ! i)" "\<forall>j<i. \<not> P (xs ! j)"
  shows "find P xs = Some (xs ! i)"
  using assms
proof (induction xs arbitrary: i)
  case Nil
  then show ?case by simp
next
  case (Cons x xs)
  show ?case
  proof (cases i)
    case 0
    with Cons.prems show ?thesis by simp
  next
    case (Suc k)
    with Cons.prems have "\<not> P x" by auto
    moreover have "find P xs = Some (xs ! k)"
      using Cons.prems Suc by (intro Cons.IH) auto
    ultimately show ?thesis using Suc by simp
  qed
qed

lemma current_first:
  assumes "i < length bs" "seg_start bs i \<le> e" "e < seg_end bs i"
    "\<forall>j<i. \<not> (seg_start bs j \<le> e \<and> e < seg_end bs j)"
  shows "current bs e = Some (seg_entry bs i)"
proof -
  let ?P = "\<lambda>c. e \<ge> c_start c \<and> e < c_end c"
  have "find ?P (cumulative bs) = Some (cumulative bs ! i)"
  proof (rule find_first)
    show "i < length (cumulative bs)" using assms(1) by (simp add: length_cumulative)
    show "?P (cumulative bs ! i)" using assms by (simp add: cumulative_nth seg_entry_def)
    show "\<forall>j<i. \<not> ?P (cumulative bs ! j)"
      using assms by (simp add: cumulative_nth seg_entry_def)
  qed
  then show ?thesis using assms(1) by (simp add: current_def cumulative_nth)
qed

lemma current_fallback:
  assumes "bs \<noteq> []" "\<forall>i<length bs. \<not> (seg_start bs i \<le> e \<and> e < seg_end bs i)"
  shows "current bs e = Some (seg_entry bs (length bs - 1))"
proof -
  let ?P = "\<lambda>c. e \<ge> c_start c \<and> e < c_end c"
  have "\<not> (\<exists>c\<in>set (cumulative bs). ?P c)"
    using assms(2) by (auto simp: cumulative_layout seg_entry_def)
  then have "find ?P (cumulative bs) = None"
    by (simp add: find_None_iff)
  moreover have "length bs - 1 < length bs" using assms(1) by (cases bs) auto
  moreover have "nat (int (length bs) - 1) = length bs - 1" by simp
  ultimately show ?thesis
    using assms(1)
    by (simp add: current_def js_index_def length_cumulative cumulative_nth)
qed

lemma current_empty: "current [] e = None"
  by (simp add: current_def cumulative_def js_index_def)

lemma find_Some_holds: "find P xs = Some x \<Longrightarrow> P x"
  by (induction xs) (auto split: if_splits)

lemma no_interval_at_end:
  assumes "\<forall>b\<in>set bs. 0 \<le> b_minutes b" "seg_end bs (length bs - 1) \<le> e"
  shows "\<forall>i<length bs. \<not> (seg_start bs i \<le> e \<and> e < seg_end bs i)"
proof (intro allI impI)
  fix i assume "i < length bs"
  then have "seg_end bs i \<le> seg_end bs (length bs - 1)"
    using assms(1) by (intro seg_end_le_last)
  then show "\<not> (seg_start bs i \<le> e \<and> e < seg_end bs i)"
    using assms(2) by simp
qed

lemma DEFAULT_BLOCKS_layout:
  "length (DEFAULT_BLOCKS i1 i2 i3) = 3"
  "seg_start (DEFAULT_BLOCKS i1 i2 i3) 0 = 0"
  "seg_start (DEFAULT_BLOCKS i1 i2 i3) 1 = 600"
  "seg_start (DEFAULT_BLOCKS i1 i2 i3) (Suc 0) = 600"
  "seg_end (DEFAULT_BLOCKS i1 i2 i3) (Suc 0) = 2400"
  "seg_start (DEFAULT_BLOCKS i1 i2 i3) 2 = 2400"
  "seg_end (DEFAULT_BLOCKS i1 i2 i3) 0 = 600"
  "seg_end (DEFAULT_BLOCKS i1 i2 i3) 1 = 2400"
  "seg_end (DEFAULT_BLOCKS i1 i2 i3) 2 = 2700"
  "totalSec (DEFAULT_BLOCKS i1 i2 i3) = 2700"
  by (simp_all add: DEFAULT_BLOCKS_def seg_start_def seg_end_def totalSec_sum
      numeral_2_eq_2)

text \<open>
  Below the total some interval holds the elapsed time: the first one whose end lies
  beyond it.
\<close>

lemma current_covers:
  assumes "0 \<le> e" "e < totalSec bs"
  shows "\<exists>i<length bs. seg_start bs i \<le> e \<and> e < seg_end bs i
           \<and> (\<forall>j<i. \<not> (seg_start bs j \<le> e \<and> e < seg_end bs j))
           \<and> current bs e = Some (seg_entry bs i)"
proof -
  define P where "P i \<longleftrightarrow> i < length bs \<and> e < seg_end bs i" for i
  have ne: "bs \<noteq> []"
    using assms by (auto simp: totalSec_sum)
  then have n: "length bs - 1 < length bs" "Suc (length bs - 1) = length bs"
    by (cases bs; simp)+
  have "seg_end bs (length bs - 1) = totalSec bs"
    using seg_end_Suc [OF n(1)] by (simp only: n(2) seg_start_length)
  then have "P (length bs - 1)"
    using assms(2) n(1) by (simp add: P_def)
  define i where "i = (LEAST i. P i)"
  have Pi: "P i"
    unfolding i_def using \<open>P (length bs - 1)\<close> by (rule LeastI)
  have least: "\<not> P j" if "j < i" for j
    using that unfolding i_def by (rule not_less_Least)
  have lower: "seg_start bs i \<le> e"
  proof (cases i)
    case 0
    then show ?thesis using assms(1) by (simp add: seg_start_def)
  next
    case (Suc k)
    then have "k < length bs" using Pi by (simp add: P_def)
    moreover have "\<not> P k" using Suc by (intro least) simp
    ultimately have "seg_end bs k \<le> e" by (simp add: P_def)
    then show ?thesis
      using Suc seg_end_Suc [OF \<open>k < length bs\<close>] by simp
  qed
  have first: "\<forall>j<i. \<not> (seg_start bs j \<le> e \<and> e < seg_end bs j)"
  proof (intro allI impI)
    fix j assume "j < i"
    then have "\<not> P j" "j < length bs" using least Pi by (auto simp: P_def)
    then show "\<not> (seg_start bs j \<le> e \<and> e < seg_end bs j)" by (simp add: P_def)
  qed
  have "current bs e = Some (seg_entry bs i)"
    using Pi lower first by (intro current_first) (simp_all add: P_def)
  then show ?thesis
    using Pi lower first by (auto simp: P_def)
qed

section \<open>The timer\<close>

text \<open>
  Claim C2, as the specification states it: \<^verbatim>\<open>percent()\<close> is
  \<open>round (100 * elapsed / total)\<close>, and 0 when the total is 0. It fails twice. The code
  divides with no guard, so for the empty plan, whose total is 0, the idle timer gives
  \<^verbatim>\<open>Math.round((0 / 0) * 100)\<close>, which is \<^verbatim>\<open>NaN\<close>. And the code rounds
  the double \<^verbatim>\<open>(elapsedSec / totalSec) * 100\<close>: at 391.5 of 2700 seconds the exact
  value is 14.5, which rounds to 15, the double is 14.499999999999998 and the code gives 14.
\<close>

theorem percent_not_round:
  "totalSec [] = 0 \<and> percent 0 (totalSec []) = NaN \<and> percent 0 (totalSec []) \<noteq> Fin 0
   \<and> percent (783 / 2) 2700 = Fin 14
   \<and> round (100 * (783 / 2) / 2700 :: rat) = 15"
proof -
  have z: "totalSec [] = 0" by (simp add: totalSec_def totalMinutes_def)
  have n: "percent 0 0 = NaN" by (simp add: percent_def double_div_def double_mul_def)
  have r: "round (100 * (783 / 2) / 2700 :: rat) = 15"
    by (simp add: round_def floor_eq_iff)
  show ?thesis by (simp only: z n r percent_tie) simp
qed

text \<open>
  Claim C2, amended: for every engine state with \<open>0 \<le> elapsed \<le> total\<close> and a total
  above 0, \<^verbatim>\<open>percent()\<close> is an integer from 0 to 100 within
  \<open>1 / 2 + 1 / 2 ^ 45\<close> of \<open>100 * elapsed / total\<close>; it is
  \<open>round (100 * elapsed / total)\<close> whenever no integer lies within \<open>1 / 2 ^ 45\<close> of
  \<open>100 * elapsed / total + 1 / 2\<close>, that is away from a tie.
\<close>

theorem percent_near_round:
  "0 \<le> e \<and> e \<le> tot \<and> 0 < tot \<longrightarrow>
     (\<exists>n. percent e tot = Fin (of_int n) \<and> 0 \<le> n \<and> n \<le> 100
        \<and> \<bar>of_int n - 100 * e / tot\<bar> \<le> 1 / 2 + 1 / 2 ^ 45
        \<and> (\<lfloor>100 * e / tot + 1 / 2 - 1 / 2 ^ 45\<rfloor> = \<lfloor>100 * e / tot + 1 / 2 + 1 / 2 ^ 45\<rfloor>
             \<longrightarrow> n = round (100 * e / tot)))"
proof (intro impI)
  assume h: "0 \<le> e \<and> e \<le> tot \<and> 0 < tot"
  define y where "y = e / tot"
  define x where "x = 100 * e / tot"
  have y01: "0 \<le> y" "y \<le> 1" using h by (simp_all add: y_def)
  have xy: "x = 100 * y" by (simp add: x_def y_def)
  have "y < 2 powi 1" using y01 by simp
  then obtain y1 where y1: "to_double y = Fin y1" "0 \<le> y1" "\<bar>y1 - y\<bar> \<le> 2 powi (1 - 54)"
    using to_double_nonneg [of y 1] y01 by auto
  have p53: "(2::rat) powi (1 - 54) = 1 / 2 ^ 53" by (simp add: power_int_minus_divide)
  have p47: "(2::rat) powi (7 - 54) = 1 / 2 ^ 47" by (simp add: power_int_minus_divide)
  have dy: "\<bar>y1 - y\<bar> \<le> 1 / 2 ^ 53" using y1(3) p53 by simp
  then have dy': "y1 \<le> y + 1 / 2 ^ 53" by linarith
  define z where "z = y1 * 100"
  have z0: "0 \<le> z" using y1(2) by (simp add: z_def)
  have "y1 < 128 / 100" using dy' y01(2) by simp
  then have "z < 128" by (simp add: z_def)
  then have "z < 2 powi 7" by simp
  then obtain x1 where x1: "to_double z = Fin x1" "0 \<le> x1" "\<bar>x1 - z\<bar> \<le> 2 powi (7 - 54)"
    using to_double_nonneg [of z 7] z0 by auto
  have dz: "\<bar>x1 - z\<bar> \<le> 1 / 2 ^ 47" using x1(3) p47 by simp
  have dx: "\<bar>x1 - x\<bar> \<le> 1 / 2 ^ 45"
  proof -
    have "y1 - y \<le> 1 / 2 ^ 53" "y - y1 \<le> 1 / 2 ^ 53"
      using dy by linarith+
    moreover have "x1 - y1 * 100 \<le> 1 / 2 ^ 47" "y1 * 100 - x1 \<le> 1 / 2 ^ 47"
      using dz unfolding z_def by linarith+
    ultimately have "x1 - 100 * y \<le> 1 / 2 ^ 45" "100 * y - x1 \<le> 1 / 2 ^ 45"
      by simp_all
    then show ?thesis unfolding xy by linarith
  qed
  then have ub: "x1 \<le> x + 1 / 2 ^ 45" and lb: "x - 1 / 2 ^ 45 \<le> x1"
    by linarith+
  have x100: "0 \<le> x" "x \<le> 100" using y01 by (simp_all add: xy)
  define n where "n = \<lfloor>x1 + 1 / 2\<rfloor>"
  have pc: "percent e tot = Fin (of_int n)"
    using h by (simp add: percent_def double_div_def double_mul_def y_def [symmetric] y1(1)
        z_def [symmetric] x1(1) n_def)
  have fl: "of_int n \<le> x1 + 1 / 2" "x1 + 1 / 2 < of_int n + 1"
    unfolding n_def by linarith+
  have n0: "0 \<le> n" unfolding n_def using x1(2) by simp
  have "x + 1 / 2 ^ 45 + 1 / 2 < 101" using x100(2) by simp
  then have "x1 + 1 / 2 < 101" using ub by linarith
  then have n100: "n \<le> 100" unfolding n_def by (simp add: floor_le_iff)
  have near: "\<bar>of_int n - x\<bar> \<le> 1 / 2 + 1 / 2 ^ 45"
    using fl ub lb by linarith
  have stable: "n = round x"
    if eq: "\<lfloor>x + 1 / 2 - 1 / 2 ^ 45\<rfloor> = \<lfloor>x + 1 / 2 + 1 / 2 ^ 45\<rfloor>"
  proof -
    have c: "x + 1 / 2 - 1 / 2 ^ 45 \<le> x1 + 1 / 2" "x1 + 1 / 2 \<le> x + 1 / 2 + 1 / 2 ^ 45"
      using ub lb by linarith+
    have a: "\<lfloor>x + 1 / 2 - 1 / 2 ^ 45\<rfloor> \<le> n" "n \<le> \<lfloor>x + 1 / 2 + 1 / 2 ^ 45\<rfloor>"
      unfolding n_def using floor_mono [OF c(1)] floor_mono [OF c(2)] by simp_all
    have d: "x + 1 / 2 - 1 / 2 ^ 45 \<le> x + 1 / 2" "x + 1 / 2 \<le> x + 1 / 2 + 1 / 2 ^ 45"
      by simp_all
    have b: "\<lfloor>x + 1 / 2 - 1 / 2 ^ 45\<rfloor> \<le> round x" "round x \<le> \<lfloor>x + 1 / 2 + 1 / 2 ^ 45\<rfloor>"
      unfolding round_def using floor_mono [OF d(1)] floor_mono [OF d(2)] by simp_all
    from a b eq show ?thesis by linarith
  qed
  show "\<exists>n. percent e tot = Fin (of_int n) \<and> 0 \<le> n \<and> n \<le> 100
        \<and> \<bar>of_int n - 100 * e / tot\<bar> \<le> 1 / 2 + 1 / 2 ^ 45
        \<and> (\<lfloor>100 * e / tot + 1 / 2 - 1 / 2 ^ 45\<rfloor> = \<lfloor>100 * e / tot + 1 / 2 + 1 / 2 ^ 45\<rfloor>
             \<longrightarrow> n = round (100 * e / tot))"
    using pc n0 n100 near stable unfolding x_def by blast
qed

text \<open>Claim C2, the amended statement at 1500 of 2700 seconds, away from a tie.\<close>

theorem percent_near_round_witness:
  "(0::rat) \<le> 1500 \<and> (1500::rat) \<le> 2700 \<and> (0::rat) < 2700
   \<and> \<lfloor>100 * 1500 / 2700 + 1 / 2 - 1 / 2 ^ 45 :: rat\<rfloor>
       = \<lfloor>100 * 1500 / 2700 + 1 / 2 + 1 / 2 ^ 45 :: rat\<rfloor>
   \<and> percent 1500 2700 = Fin (of_int (round (100 * 1500 / 2700 :: rat)))"
proof -
  have a: "\<lfloor>100 * 1500 / 2700 + 1 / 2 - 1 / 2 ^ 45 :: rat\<rfloor> = 56"
    by (simp add: floor_eq_iff)
  have b: "\<lfloor>100 * 1500 / 2700 + 1 / 2 + 1 / 2 ^ 45 :: rat\<rfloor> = 56"
    by (simp add: floor_eq_iff)
  have "(0::rat) \<le> 1500 \<and> (1500::rat) \<le> 2700 \<and> (0::rat) < 2700" by simp
  with percent_near_round [of 1500 2700] a b
  have "percent 1500 2700 = Fin (of_int (round (100 * 1500 / 2700 :: rat)))"
    by auto
  with a b show ?thesis by simp
qed

text \<open>
  Claim C3, as the specification states it: a tick adds \<open>max delta 0\<close>, so that a negative
  delta neither rewinds the elapsed time nor makes it negative. It fails: the updater adds
  the delta as it is. With 5 of 10 seconds elapsed and a delta of -7 seconds (a frame whose
  time stamp is 7000 ms before the last one) the elapsed time becomes -2.
\<close>

theorem tick_rewinds:
  "tick 10 (-7) 5 = -2 \<and> tick 10 (-7) 5 \<noteq> min (5 + max (-7) 0) 10
   \<and> tick 10 (-7) 5 < 0 \<and> tick 10 (-7) 5 < 5
   \<and> elapsedSec (loop 10 3000 \<lparr>isRunning = True, elapsedSec = 5, lastTick = Some 10000\<rparr>) = -2"
  by (simp add: tick_def loop_def)

text \<open>
  Claim C3, amended: for every state with \<open>0 \<le> elapsed \<le> total\<close> and every delta that is
  not negative, a tick sets the elapsed time to \<open>min (elapsed + max delta 0) total\<close>; the
  result is not negative, not above the total and not below the old value. For every
  delta, negative ones too, the result is \<open>min (elapsed + delta) total\<close> and so never
  above the total.
\<close>

theorem tick_clamped:
  "(0 \<le> s \<and> s \<le> tot \<and> 0 \<le> dt \<longrightarrow>
      tick tot dt s = min (s + max dt 0) tot \<and> 0 \<le> tick tot dt s \<and> tick tot dt s \<le> tot
        \<and> s \<le> tick tot dt s)
   \<and> tick tot dt s = min (s + dt) tot \<and> tick tot dt s \<le> tot"
  by (auto simp: tick_def)

text \<open>
  Claim C3, the amended statement five seconds before the end of a 2700 second plan: a
  delta of 10 seconds stops at the total, a delta of 0 changes nothing.
\<close>

theorem tick_clamped_witness:
  "(0::rat) \<le> 2695 \<and> (2695::rat) \<le> 2700 \<and> (0::rat) \<le> 10
     \<and> tick 2700 10 2695 = 2700 \<and> tick 2700 0 2695 = 2695"
  using tick_clamped [of 2695 2700 10] tick_clamped [of 2695 2700 0] by simp

text \<open>
  The frame callback applies the updater to the difference of two time stamps; time
  stamps that do not decrease keep the elapsed time in range and growing.
\<close>

lemma loop_elapsed:
  "elapsedSec (loop tot t st) =
     tick tot ((t - (case lastTick st of None \<Rightarrow> t | Some l \<Rightarrow> l)) / 1000) (elapsedSec st)"
  by (simp add: loop_def Let_def)

lemma loop_monotone:
  assumes "\<forall>l. lastTick st = Some l \<longrightarrow> l \<le> t" "0 \<le> elapsedSec st" "elapsedSec st \<le> tot"
  shows "elapsedSec st \<le> elapsedSec (loop tot t st) \<and> 0 \<le> elapsedSec (loop tot t st)
         \<and> elapsedSec (loop tot t st) \<le> tot"
proof -
  have "0 \<le> (t - (case lastTick st of None \<Rightarrow> t | Some l \<Rightarrow> l)) / 1000"
    using assms(1) by (cases "lastTick st") simp_all
  then show ?thesis
    using assms(2,3) by (auto simp: loop_elapsed tick_def)
qed

section \<open>The current segment\<close>

text \<open>
  Claim C4. Block minutes are not negative, as the data model of the specification says.
  For every plan with at least one segment and every elapsed time between 0 and the
  total, \<^verbatim>\<open>current\<close> is the first segment, in declaration order, whose half-open
  interval holds the elapsed time; it is the last segment when the elapsed time has reached
  the end of the last interval; below the total there is such a first segment. A plan
  without segments has no current segment. For the
  plan of 10, 30 and 5 minutes at 1500 seconds it is the second segment, from 600 to 2400,
  and the percentage is 56.
\<close>

theorem current_segment:
  "(bs \<noteq> [] \<and> (\<forall>b\<in>set bs. 0 \<le> b_minutes b) \<and> 0 \<le> e \<and> e \<le> totalSec bs \<longrightarrow>
      (\<forall>i<length bs.
          seg_start bs i \<le> e \<and> e < seg_end bs i
            \<and> (\<forall>j<i. \<not> (seg_start bs j \<le> e \<and> e < seg_end bs j))
          \<longrightarrow> current bs e = Some (seg_entry bs i))
      \<and> (seg_end bs (length bs - 1) \<le> e \<longrightarrow>
            current bs e = Some (seg_entry bs (length bs - 1)))
      \<and> (e < totalSec bs \<longrightarrow>
            (\<exists>i<length bs. seg_start bs i \<le> e \<and> e < seg_end bs i
               \<and> current bs e = Some (seg_entry bs i))))
   \<and> current [] e = None
   \<and> current (DEFAULT_BLOCKS i1 i2 i3) 1500 =
        Some \<lparr>c_id = i2, c_start = 600, c_end = 2400, c_name = ''Main Set'',
              c_intensity = moderate\<rparr>
   \<and> percent 1500 (totalSec (DEFAULT_BLOCKS i1 i2 i3)) = Fin 56"
proof (intro conjI impI allI)
  fix i
  assume "bs \<noteq> [] \<and> (\<forall>b\<in>set bs. 0 \<le> b_minutes b) \<and> 0 \<le> e \<and> e \<le> totalSec bs"
    and "i < length bs"
    and "seg_start bs i \<le> e \<and> e < seg_end bs i
           \<and> (\<forall>j<i. \<not> (seg_start bs j \<le> e \<and> e < seg_end bs j))"
  then show "current bs e = Some (seg_entry bs i)"
    by (intro current_first) simp_all
next
  assume "bs \<noteq> [] \<and> (\<forall>b\<in>set bs. 0 \<le> b_minutes b) \<and> 0 \<le> e \<and> e \<le> totalSec bs"
    and "seg_end bs (length bs - 1) \<le> e"
  then show "current bs e = Some (seg_entry bs (length bs - 1))"
    by (intro current_fallback no_interval_at_end) simp_all
next
  assume "bs \<noteq> [] \<and> (\<forall>b\<in>set bs. 0 \<le> b_minutes b) \<and> 0 \<le> e \<and> e \<le> totalSec bs"
    and "e < totalSec bs"
  then show "\<exists>i<length bs. seg_start bs i \<le> e \<and> e < seg_end bs i
               \<and> current bs e = Some (seg_entry bs i)"
    using current_covers [of e bs] by blast
next
  show "current [] e = None" by (rule current_empty)
next
  have "cumulative (DEFAULT_BLOCKS i1 i2 i3) =
      [\<lparr>c_id = i1, c_start = 0, c_end = 600, c_name = ''Warmup'', c_intensity = low\<rparr>,
       \<lparr>c_id = i2, c_start = 600, c_end = 2400, c_name = ''Main Set'', c_intensity = moderate\<rparr>,
       \<lparr>c_id = i3, c_start = 2400, c_end = 2700, c_name = ''Cooldown'', c_intensity = low\<rparr>]"
    by (simp add: cumulative_def DEFAULT_BLOCKS_def cumulative_step_def)
  then show "current (DEFAULT_BLOCKS i1 i2 i3) 1500 =
        Some \<lparr>c_id = i2, c_start = 600, c_end = 2400, c_name = ''Main Set'',
              c_intensity = moderate\<rparr>"
    by (simp add: current_def)
next
  have "totalSec (DEFAULT_BLOCKS i1 i2 i3) = 2700"
    by (simp add: totalSec_def totalMinutes_def DEFAULT_BLOCKS_def or0_def)
  then show "percent 1500 (totalSec (DEFAULT_BLOCKS i1 i2 i3)) = Fin 56"
    by (simp only: percent_1500_2700)
qed

text \<open>
  Claim C4 on the default plan: at 1500 seconds the second interval is the first that
  holds the elapsed time, at 2700 seconds the end of the last interval is reached.
\<close>

theorem current_segment_witness:
  "DEFAULT_BLOCKS ''w'' ''m'' ''c'' \<noteq> []
   \<and> list_all (\<lambda>b. 0 \<le> b_minutes b) (DEFAULT_BLOCKS ''w'' ''m'' ''c'')
   \<and> (0::rat) \<le> 1500 \<and> 1500 \<le> totalSec (DEFAULT_BLOCKS ''w'' ''m'' ''c'')
   \<and> seg_start (DEFAULT_BLOCKS ''w'' ''m'' ''c'') 1 \<le> 1500
   \<and> 1500 < seg_end (DEFAULT_BLOCKS ''w'' ''m'' ''c'') 1
   \<and> \<not> (seg_start (DEFAULT_BLOCKS ''w'' ''m'' ''c'') 0 \<le> 1500
          \<and> 1500 < seg_end (DEFAULT_BLOCKS ''w'' ''m'' ''c'') 0)
   \<and> current (DEFAULT_BLOCKS ''w'' ''m'' ''c'') 1500
        = Some (seg_entry (DEFAULT_BLOCKS ''w'' ''m'' ''c'') 1)
   \<and> seg_end (DEFAULT_BLOCKS ''w'' ''m'' ''c'') 2 \<le> 2700
   \<and> current (DEFAULT_BLOCKS ''w'' ''m'' ''c'') 2700
        = Some (seg_entry (DEFAULT_BLOCKS ''w'' ''m'' ''c'') 2)"
proof -
  let ?bs = "DEFAULT_BLOCKS ''w'' ''m'' ''c''"
  have nonneg: "\<forall>b\<in>set ?bs. 0 \<le> b_minutes b"
    by (simp add: DEFAULT_BLOCKS_def)
  have ne: "?bs \<noteq> []" by (simp add: DEFAULT_BLOCKS_def)
  have hyp: "?bs \<noteq> [] \<and> (\<forall>b\<in>set ?bs. 0 \<le> b_minutes b) \<and> 0 \<le> e \<and> e \<le> totalSec ?bs"
    if "e = 1500 \<or> e = 2700" for e
    using that nonneg ne by (auto simp: DEFAULT_BLOCKS_layout)
  have second: "1 < length ?bs \<and> seg_start ?bs 1 \<le> 1500 \<and> 1500 < seg_end ?bs 1
      \<and> (\<forall>j<1. \<not> (seg_start ?bs j \<le> 1500 \<and> 1500 < seg_end ?bs j))"
    by (simp add: DEFAULT_BLOCKS_layout)
  have "current ?bs 1500 = Some (seg_entry ?bs 1)"
    using current_segment [of ?bs 1500] hyp [of 1500] second by blast
  moreover have "seg_end ?bs (length ?bs - 1) \<le> 2700"
    by (simp add: DEFAULT_BLOCKS_layout)
  then have "current ?bs 2700 = Some (seg_entry ?bs (length ?bs - 1))"
    using current_segment [of ?bs 2700] hyp [of 2700] by blast
  then have "current ?bs 2700 = Some (seg_entry ?bs 2)"
    by (simp add: DEFAULT_BLOCKS_layout)
  ultimately show ?thesis
    using nonneg ne by (simp add: DEFAULT_BLOCKS_layout list_all_iff)
qed

text \<open>
  Claim C10. If \<^verbatim>\<open>current\<close> is the entry of a block of zero minutes, that entry is
  the last one of the plan and no interval holds the elapsed time: the entry was not
  found by the search, it is the fallback. With distinct block ids the block is the last
  block.
\<close>

theorem zero_duration_only_by_fallback:
  assumes "i < length bs" "current bs e = Some (cumulative bs ! i)" "b_minutes (bs ! i) = 0"
  shows "cumulative bs ! i = last (cumulative bs)
         \<and> (\<forall>c\<in>set (cumulative bs). \<not> (c_start c \<le> e \<and> e < c_end c))
         \<and> (\<forall>j<length bs. \<not> (seg_start bs j \<le> e \<and> e < seg_end bs j))
         \<and> (distinct (map b_id bs) \<longrightarrow> i = length bs - 1)"
proof -
  let ?P = "\<lambda>c. e \<ge> c_start c \<and> e < c_end c"
  have empty: "c_end (cumulative bs ! i) = c_start (cumulative bs ! i)"
    using assms(1,3) by (simp add: cumulative_nth seg_entry_def seg_end_def)
  have none: "find ?P (cumulative bs) = None"
  proof (cases "find ?P (cumulative bs)")
    case None
    then show ?thesis .
  next
    case (Some c)
    then have "?P c" by (rule find_Some_holds)
    moreover have "c = cumulative bs ! i" using Some assms(2) by (simp add: current_def)
    ultimately have "c_start (cumulative bs ! i) < c_end (cumulative bs ! i)" by simp
    with empty have False by simp
    then show ?thesis ..
  qed
  have ne: "cumulative bs \<noteq> []" using assms(1) length_cumulative [of bs] by auto
  have n1: "nat (int (length bs) - 1) = length bs - 1" by simp
  have "bs \<noteq> []" using assms(1) by auto
  then have "current bs e = Some (cumulative bs ! (length bs - 1))"
    using none by (simp add: current_def js_index_def length_cumulative n1)
  then have eq: "cumulative bs ! i = cumulative bs ! (length bs - 1)"
    using assms(2) by simp
  then have last: "cumulative bs ! i = last (cumulative bs)"
    using ne by (simp add: last_conv_nth length_cumulative)
  have nocum: "\<forall>c\<in>set (cumulative bs). \<not> (c_start c \<le> e \<and> e < c_end c)"
    using none by (simp add: find_None_iff)
  have noseg: "\<forall>j<length bs. \<not> (seg_start bs j \<le> e \<and> e < seg_end bs j)"
  proof (intro allI impI)
    fix j assume j: "j < length bs"
    then have "cumulative bs ! j \<in> set (cumulative bs)" by (simp add: length_cumulative)
    with nocum have "\<not> ?P (cumulative bs ! j)" by blast
    then show "\<not> (seg_start bs j \<le> e \<and> e < seg_end bs j)"
      using j by (simp add: cumulative_nth seg_entry_def)
  qed
  have "i = length bs - 1" if d: "distinct (map b_id bs)"
  proof -
    have k: "length bs - 1 < length bs" using assms(1) by arith
    have "c_id (cumulative bs ! i) = c_id (cumulative bs ! (length bs - 1))"
      using eq by simp
    then have "map b_id bs ! i = map b_id bs ! (length bs - 1)"
      using assms(1) k by (simp add: cumulative_nth seg_entry_def)
    moreover have "i < length (map b_id bs)" "length bs - 1 < length (map b_id bs)"
      using assms(1) k by simp_all
    ultimately show ?thesis
      using nth_eq_iff_index_eq [OF d] by blast
  qed
  with last nocum noseg show ?thesis by blast
qed

text \<open>
  Claim C10 on a plan of a 10 minute block and a zero-minute block, at 600 seconds.
\<close>

theorem zero_duration_only_by_fallback_witness:
  "1 < length zeroLastBlocks
   \<and> current zeroLastBlocks 600 = Some (cumulative zeroLastBlocks ! 1)
   \<and> b_minutes (zeroLastBlocks ! 1) = 0
   \<and> cumulative zeroLastBlocks ! 1 = last (cumulative zeroLastBlocks)
   \<and> list_all (\<lambda>c. \<not> (c_start c \<le> 600 \<and> 600 < c_end c)) (cumulative zeroLastBlocks)"
proof -
  have h: "1 < length zeroLastBlocks"
    "current zeroLastBlocks 600 = Some (cumulative zeroLastBlocks ! 1)"
    "b_minutes (zeroLastBlocks ! 1) = 0"
    by (simp_all add: current_def cumulative_def zeroLastBlocks_def cumulative_step_def
        js_index_def)
  show ?thesis
    using zero_duration_only_by_fallback [OF h] h by (simp add: list_all_iff)
qed

section \<open>Saving a session\<close>

text \<open>
  Claim C6 says that \<^verbatim>\<open>finish\<close> never fails. With an empty plan list no plan is
  selected, and \<^verbatim>\<open>finish\<close> throws on \<^verbatim>\<open>selected.id\<close>, whatever the timer and the
  metric inputs are; no log is stored and the timer is not reset. The rest of the
  component reads \<^verbatim>\<open>selected?.id\<close> and \<^verbatim>\<open>selected?.blocks\<close>.
\<close>

theorem finish_without_plan:
  "selected [] sid = None \<and> finish newId now [] logs st = Inl TypeError"
  by (simp add: finish_def selected_def js_index_def)

text \<open>
  With a plan selected \<^verbatim>\<open>finish\<close> returns: the duration is
  \<^verbatim>\<open>Math.round(elapsedSec / 60)\<close>, and there is one metric entry for each input, in
  order, with \<^verbatim>\<open>NaN\<close> (which a missing value also gives) replaced by 0.
\<close>

lemma finish_with_plan:
  assumes "selected plans (selectedId st) = Some p"
  shows "finish newId now plans logs st =
     Inr (addLog logs
            \<lparr>l_id = newId,
             l_userId = (if studentName st = [] then None else Some (studentName st)),
             l_planId = p_id p, l_date = now,
             l_duration = Math_round (double_div (Fin (elapsedSec (timer st))) (Fin 60)),
             l_rpe = rpe st, l_notes = Some (notesText st),
             l_metrics = map (\<lambda>(k, v). \<lparr>m_blockId = k,
                 m_value = (case Number v of NaN \<Rightarrow> Fin 0 | n \<Rightarrow> n)\<rparr>) (metricInputs st)\<rparr>,
          st\<lparr>timer := reset (timer st)\<rparr>)"
proof -
  have "js_or n (Fin 0) = (case n of NaN \<Rightarrow> Fin 0 | n \<Rightarrow> n)" for n
    by (cases n) (simp_all add: js_or_def)
  then show ?thesis
    using assms by (simp add: finish_def Let_def)
qed

lemma minutes_1200: "Math_round (double_div (Fin 1200) (Fin 60)) = Fin 20"
  using to_double_20 by (simp add: double_div_def floor_eq_iff)

lemma minutes_2700: "Math_round (double_div (Fin 2700) (Fin 60)) = Fin 45"
  using to_double_45 by (simp add: double_div_def floor_eq_iff)

lemma finish_1200_seconds:
  assumes "selected plans (selectedId st) = Some p" "elapsedSec (timer st) = 1200"
  shows "\<exists>logs' st'. finish newId now plans logs st = Inr (logs', st')
           \<and> l_duration (hd logs') = Fin 20"
  using finish_with_plan [OF assms(1), of newId now logs] assms(2)
  by (simp add: addLog_def minutes_1200)

section \<open>The log store\<close>

lemma length_addLog: "length (addLog logs l) \<le> 500"
  by (simp add: addLog_def)

lemma length_foldl_addLog: "length logs \<le> 500 \<Longrightarrow> length (foldl addLog logs ls) \<le> 500"
  by (induction ls arbitrary: logs) (simp_all add: length_addLog)

text \<open>
  Claim C7. Appending a log keeps the new log and the 499 most recent of the old ones, so
  at most 500 entries; appending to a store of 500 drops its oldest entry, the last of the
  list; a store built by appending from the empty one never exceeds 500 entries.
\<close>

theorem addLog_keeps_500:
  "addLog logs l = l # take 499 logs
   \<and> length (addLog logs l) \<le> 500
   \<and> (length logs = 500 \<longrightarrow> addLog logs l = l # butlast logs)
   \<and> length (foldl addLog [] ls) \<le> 500"
proof (intro conjI impI)
  have "take 500 (l # logs) = l # take 499 logs"
    by (simp add: take_Cons')
  then show "addLog logs l = l # take 499 logs" by (simp add: addLog_def)
  then show "addLog logs l = l # butlast logs" if "length logs = 500"
    using that by (simp add: butlast_conv_take)
  show "length (addLog logs l) \<le> 500" by (rule length_addLog)
  show "length (foldl addLog [] ls) \<le> 500" by (rule length_foldl_addLog) simp
qed

text \<open>Claim C7 on a store of 500 logs whose oldest entry is the log \<open>''A''\<close>.\<close>

theorem addLog_keeps_500_witness:
  "length (replicate 499 (exampleLog ''B'' ''d2'' 15) @ [exampleLog ''A'' ''d1'' 10]) = 500
   \<and> addLog (replicate 499 (exampleLog ''B'' ''d2'' 15) @ [exampleLog ''A'' ''d1'' 10])
        (exampleLog ''C'' ''d3'' 20)
      = exampleLog ''C'' ''d3'' 20 # replicate 499 (exampleLog ''B'' ''d2'' 15)"
  using addLog_keeps_500 [of "replicate 499 (exampleLog ''B'' ''d2'' 15) @ [exampleLog ''A'' ''d1'' 10]"
      "exampleLog ''C'' ''d3'' 20"]
  by simp

section \<open>Saving a plan\<close>

lemma foldl_minutes: "foldl (\<lambda>a b. a + b_minutes b) a bs = a + sum_list (map b_minutes bs)"
  by (induction bs arbitrary: a) simp_all

text \<open>
  Claim C8. When the minutes of the edited plan do not sum to 45, \<^verbatim>\<open>savePlan\<close>
  leaves the plan list as it is: the only effect is the alert with the sum, and the plan
  stays in the editor.
\<close>

theorem savePlan_rejects:
  assumes "editing st = Some e" "sum_list (map b_minutes (p_blocks e)) \<noteq> 45"
  shows "savePlan plans st =
           (plans, st\<lparr>alerts := alerts st @ [MustTotal45 (sum_list (map b_minutes (p_blocks e)))]\<rparr>)"
  using assms by (simp add: savePlan_def foldl_minutes Let_def)

text \<open>Claim C8 on a plan of 40 minutes.\<close>

theorem savePlan_rejects_witness:
  "editing \<lparr>editing = Some shortPlan, alerts = []\<rparr> = Some shortPlan
   \<and> sum_list (map b_minutes (p_blocks shortPlan)) \<noteq> 45
   \<and> savePlan [examplePlan] \<lparr>editing = Some shortPlan, alerts = []\<rparr>
       = ([examplePlan], \<lparr>editing = Some shortPlan, alerts = [MustTotal45 40]\<rparr>)"
proof -
  have sum: "sum_list (map b_minutes (p_blocks shortPlan)) = 40"
    by (simp add: shortPlan_def DEFAULT_BLOCKS_def)
  show ?thesis
    using savePlan_rejects [of "\<lparr>editing = Some shortPlan, alerts = []\<rparr>" shortPlan "[examplePlan]"]
    by (simp add: sum)
qed

section \<open>Improvement\<close>

lemma example_series:
  "series [exampleLog i1 d1 v1, exampleLog i2 d2 v2] (Some examplePlan) ''m'' = [Fin v1, Fin v2]"
  by (simp add: series_def myLogs_def exampleLog_def examplePlan_def List.map_filter_simps)

text \<open>
  The values that qualify for a block are those of the logs of the selected plan that
  have an entry for the block; with fewer than two such logs the result is empty.
\<close>

lemma length_series:
  "length (series logs (Some p) b) =
     length (filter (\<lambda>l. l_planId l = p_id p \<and> list_ex (\<lambda>m. m_blockId m = b) (l_metrics l))
               logs)"
proof -
  let ?f = "\<lambda>l. map_option m_value (find (\<lambda>m. m_blockId m = b) (l_metrics l))"
  have q: "(?f l \<noteq> None) = list_ex (\<lambda>m. m_blockId m = b) (l_metrics l)" for l
    by (auto simp: find_None_iff list_ex_iff)
  have "length (series logs (Some p) b)
          = length (filter (\<lambda>l. ?f l \<noteq> None) (filter (\<lambda>l. l_planId l = p_id p) logs))"
    by (simp add: series_def myLogs_def List.map_filter_def)
  also have "\<dots> = length (filter (\<lambda>l. l_planId l = p_id p \<and> ?f l \<noteq> None) logs)"
    by simp
  also have "\<dots> = length (filter (\<lambda>l. l_planId l = p_id p
                \<and> list_ex (\<lambda>m. m_blockId m = b) (l_metrics l)) logs)"
    by (simp only: q)
  finally show ?thesis .
qed

lemma improvement_empty_below_two:
  assumes "length (filter (\<lambda>l. l_planId l = p_id p
                \<and> list_ex (\<lambda>m. m_blockId m = b) (l_metrics l)) logs) < 2"
  shows "computeImprovement logs (Some p) b
           = \<lparr>i_baseline = None, i_latest = None, i_percent = None\<rparr>"
  using assms by (simp add: computeImprovement_def length_series)

text \<open>
  Stored metric values are finite numbers. When the values the function reads are
  \<open>rs\<close>, in the order of the array, the baseline is the first and the latest is the
  last of them, and the percentage is \<open>100 * (latest - baseline) / baseline\<close>, left out
  when the baseline is 0.
\<close>

lemma improvement_from_series:
  assumes ser: "series logs sel blockId = map Fin rs"
  shows "computeImprovement logs sel blockId =
        (if length rs < 2 then \<lparr>i_baseline = None, i_latest = None, i_percent = None\<rparr>
         else if hd rs = 0
           then \<lparr>i_baseline = Some (Fin (hd rs)), i_latest = Some (Fin (last rs)),
                 i_percent = None\<rparr>
           else \<lparr>i_baseline = Some (Fin (hd rs)), i_latest = Some (Fin (last rs)),
                 i_percent = Some (Fin (100 * (last rs - hd rs) / hd rs))\<rparr>)"
proof (cases "length rs < 2")
  case True
  then show ?thesis by (simp add: computeImprovement_def ser)
next
  case False
  then have ne: "rs \<noteq> []" by auto
  have first: "map Fin rs ! 0 = Fin (hd rs)"
    using ne by (simp add: hd_conv_nth)
  have lst: "map Fin rs ! (length rs - Suc 0) = Fin (last rs)"
    using ne by (simp add: last_conv_nth)
  show ?thesis
    using False
    by (simp add: computeImprovement_def ser Let_def first lst algebra_simps
        del: nth_map)
qed

lemma finish_example:
  "finish i d [examplePlan] logs (exampleStudent v)
     = Inr (addLog logs (exampleLog i d v),
            (exampleStudent v)\<lparr>timer := reset (timer (exampleStudent v))\<rparr>)"
proof -
  have sel: "selected [examplePlan] ''p'' = Some examplePlan"
    by (simp add: selected_def examplePlan_def)
  show ?thesis
    by (simp add: finish_def Let_def exampleStudent_def sel exampleLog_def js_or_def
        minutes_2700)
       (simp add: examplePlan_def)
qed

text \<open>
  Claim C5 gives the result for the values of a block in the order of their recording:
  empty for fewer than two, no percentage for a baseline of 0, otherwise
  \<open>100 * (latest - baseline) / baseline\<close>; the values 10 and then 15 are to give 10, 15
  and 50 percent, the values 0 and then 5 are to give 0 and 5 and no percentage. The store
  is newest-first and the function takes its first value as the baseline. On the store that
  sessions with 0 and then 5 leave, the baseline is 5, the latest is 0 and the percentage
  is -100; with 10 and then 15 they are 15, 10 and -33.3. It is the defect of claim C1.
\<close>

theorem improvement_examples_on_store:
  "finish ''A'' ''d1'' [examplePlan] [] (exampleStudent 0)
     = Inr ([exampleLog ''A'' ''d1'' 0],
            (exampleStudent 0)\<lparr>timer := reset (timer (exampleStudent 0))\<rparr>)
   \<and> finish ''B'' ''d2'' [examplePlan] [exampleLog ''A'' ''d1'' 0] (exampleStudent 5)
     = Inr ([exampleLog ''B'' ''d2'' 5, exampleLog ''A'' ''d1'' 0],
            (exampleStudent 5)\<lparr>timer := reset (timer (exampleStudent 5))\<rparr>)
   \<and> computeImprovement [exampleLog ''B'' ''d2'' 5, exampleLog ''A'' ''d1'' 0]
        (selected [examplePlan] ''p'') ''m''
       = \<lparr>i_baseline = Some (Fin 5), i_latest = Some (Fin 0), i_percent = Some (Fin (- 100))\<rparr>
   \<and> computeImprovement [exampleLog ''B'' ''d2'' 15, exampleLog ''A'' ''d1'' 10]
        (selected [examplePlan] ''p'') ''m''
       = \<lparr>i_baseline = Some (Fin 15), i_latest = Some (Fin 10),
          i_percent = Some (Fin (- 100 / 3))\<rparr>"
proof -
  have sel: "selected [examplePlan] ''p'' = Some examplePlan"
    by (simp add: selected_def examplePlan_def)
  show ?thesis
    by (simp add: finish_example sel addLog_def example_series computeImprovement_def)
qed

text \<open>
  Claim C1 says that the values are read oldest first, so that the baseline is the
  earliest value. \<^verbatim>\<open>addLog\<close> puts the new log in front and
  \<^verbatim>\<open>computeImprovement\<close> reads the list from the front: after a session saved with
  the value 10 and a later one with the value 15, the baseline is 15, the latest is 10 and
  the percentage is negative.
\<close>

theorem improvement_reads_newest_first:
  "finish ''A'' ''d1'' [examplePlan] [] (exampleStudent 10)
     = Inr ([exampleLog ''A'' ''d1'' 10], (exampleStudent 10)\<lparr>timer := reset (timer (exampleStudent 10))\<rparr>)
   \<and> finish ''B'' ''d2'' [examplePlan] [exampleLog ''A'' ''d1'' 10] (exampleStudent 15)
     = Inr ([exampleLog ''B'' ''d2'' 15, exampleLog ''A'' ''d1'' 10],
            (exampleStudent 15)\<lparr>timer := reset (timer (exampleStudent 15))\<rparr>)
   \<and> selected [examplePlan] ''p'' = Some examplePlan
   \<and> series [exampleLog ''B'' ''d2'' 15, exampleLog ''A'' ''d1'' 10] (Some examplePlan) ''m''
       = [Fin 15, Fin 10]
   \<and> computeImprovement [exampleLog ''B'' ''d2'' 15, exampleLog ''A'' ''d1'' 10]
        (selected [examplePlan] ''p'') ''m''
       = \<lparr>i_baseline = Some (Fin 15), i_latest = Some (Fin 10),
          i_percent = Some (Fin (- 100 / 3))\<rparr>"
proof -
  have sel: "selected [examplePlan] ''p'' = Some examplePlan"
    by (simp add: selected_def examplePlan_def)
  have f: "finish i d [examplePlan] logs (exampleStudent v)
      = Inr (addLog logs (exampleLog i d v),
             (exampleStudent v)\<lparr>timer := reset (timer (exampleStudent v))\<rparr>)" for i d logs v
    by (simp add: finish_def Let_def exampleStudent_def sel exampleLog_def js_or_def
        minutes_2700)
       (simp add: examplePlan_def)
  show ?thesis
    by (simp add: f sel addLog_def example_series computeImprovement_def)
qed


lemma eraseFlags_id: "eraseFlags p = eraseFlags q \<Longrightarrow> p_id p = p_id q"
proof -
  assume "eraseFlags p = eraseFlags q"
  then have "p_id (eraseFlags p) = p_id (eraseFlags q)" by simp
  then show ?thesis by (simp add: eraseFlags_def)
qed

lemma eraseFlags_block_ids:
  assumes "eraseFlags p = eraseFlags q"
  shows "map b_id (p_blocks p) = map b_id (p_blocks q)"
proof -
  have "p_blocks (eraseFlags p) = p_blocks (eraseFlags q)" using assms by simp
  then have "map eraseFlag (p_blocks p) = map eraseFlag (p_blocks q)"
    by (simp add: eraseFlags_def)
  then have "map b_id (map eraseFlag (p_blocks p)) = map b_id (map eraseFlag (p_blocks q))"
    by simp
  then show ?thesis by (simp add: eraseFlag_def comp_def)
qed

lemma computeImprovement_plan_id:
  "p_id p = p_id q \<Longrightarrow> computeImprovement logs (Some p) k = computeImprovement logs (Some q) k"
  by (simp add: computeImprovement_def series_def myLogs_def)

text \<open>
  Claim C9. Two plans that are equal but for \<^verbatim>\<open>higherIsBetter\<close> flags have the same
  improvement for every block id and every log store, and the same improvements for their
  blocks.
\<close>

theorem improvement_ignores_higherIsBetter:
  assumes "eraseFlags p = eraseFlags q"
  shows "computeImprovement logs (Some p) blockId = computeImprovement logs (Some q) blockId
         \<and> improvements logs (Some p) = improvements logs (Some q)"
proof
  have i: "p_id p = p_id q" using assms by (rule eraseFlags_id)
  then show c: "computeImprovement logs (Some p) blockId = computeImprovement logs (Some q) blockId"
    by (rule computeImprovement_plan_id)
  have feq: "computeImprovement logs (Some p) = computeImprovement logs (Some q)"
    using i by (intro ext computeImprovement_plan_id)
  have "improvements logs (Some p)
          = map (computeImprovement logs (Some p)) (map b_id (p_blocks p))"
    by (simp add: improvements_def comp_def)
  also have "\<dots> = map (computeImprovement logs (Some q)) (map b_id (p_blocks q))"
    by (simp only: feq eraseFlags_block_ids [OF assms])
  also have "\<dots> = improvements logs (Some q)"
    by (simp add: improvements_def comp_def)
  finally show "improvements logs (Some p) = improvements logs (Some q)" .
qed

text \<open>Claim C9 on the example plan and the same plan marked lower-is-better.\<close>

theorem improvement_ignores_higherIsBetter_witness:
  "eraseFlags examplePlan = eraseFlags lowerIsBetterPlan
   \<and> examplePlan \<noteq> lowerIsBetterPlan
   \<and> computeImprovement [exampleLog ''B'' ''d2'' 15, exampleLog ''A'' ''d1'' 10]
        (Some lowerIsBetterPlan) ''m''
      = \<lparr>i_baseline = Some (Fin 15), i_latest = Some (Fin 10),
         i_percent = Some (Fin (- 100 / 3))\<rparr>"
proof -
  have e: "eraseFlags examplePlan = eraseFlags lowerIsBetterPlan"
    by (simp add: eraseFlags_def lowerIsBetterPlan_def examplePlan_def DEFAULT_BLOCKS_def
        eraseFlag_def)
  have d: "examplePlan \<noteq> lowerIsBetterPlan"
    by (simp add: lowerIsBetterPlan_def examplePlan_def DEFAULT_BLOCKS_def)
  have "computeImprovement [exampleLog ''B'' ''d2'' 15, exampleLog ''A'' ''d1'' 10]
        (Some examplePlan) ''m''
      = \<lparr>i_baseline = Some (Fin 15), i_latest = Some (Fin 10),
         i_percent = Some (Fin (- 100 / 3))\<rparr>"
    by (simp add: computeImprovement_def example_series)
  then show ?thesis
    using improvement_ignores_higherIsBetter [OF e,
        of "[exampleLog ''B'' ''d2'' 15, exampleLog ''A'' ''d1'' 10]" "''m''"] e d
    by simp
qed

end
